theory Spec2Isabelle
  imports Complex_Main "HOL-Library.Char_ord" "HOL-Library.List_Lexorder"
begin

section \<open>The feeds plugin of irc3 (\<^verbatim>\<open>irc3/plugins/feeds.py\<close>)\<close>

text \<open>
  The plugin polls syndication feeds. Each configured feed has one file per URL
  (\<^verbatim>\<open>NAME.i.feed\<close>) and, beside it, a file \<^verbatim>\<open>NAME.i.feed.updated\<close> holding the
  \<^verbatim>\<open>updated\<close> string of the newest entry already announced. The development below
  embeds \<^verbatim>\<open>fetch\<close>, \<^verbatim>\<open>parse\<close>, \<^verbatim>\<open>Feeds.__init__\<close> (the file names),
  \<^verbatim>\<open>Feeds.parse\<close>, \<^verbatim>\<open>Feeds.fetch\<close> and \<^verbatim>\<open>Feeds.update\<close>.

  Conventions of the embedding:
  \<^item> Python \<^verbatim>\<open>str\<close> is \<^typ>\<open>string\<close>, ordered lexicographically by character code
    (Python's \<^verbatim>\<open><\<close> and \<^verbatim>\<open><=\<close> on \<^verbatim>\<open>str\<close>);
  \<^item> a \<^verbatim>\<open>datetime\<close> is the \<^typ>\<open>int\<close> number of microseconds it denotes, so that
    \<^verbatim>\<open>timedelta(days=2)\<close> is \<open>172800000000\<close> and \<^verbatim>\<open><\<close> on datetimes is \<^verbatim>\<open><\<close> on
    \<^typ>\<open>int\<close>;
  \<^item> \<^verbatim>\<open>time.time()\<close> and the per-feed \<^verbatim>\<open>time\<close> and \<^verbatim>\<open>delay\<close> are \<^typ>\<open>real\<close>
    numbers of seconds (rounding of floats is not modelled);
  \<^item> an exception is a value of \<open>exn\<close>; a computation that may raise returns
    \<open>exn + 'a\<close> with \<open>Inl\<close> the exception;
  \<^item> the file system is a function from paths to \<open>file_state\<close>; opening a path for
    reading or for writing raises according to the state of the path.
\<close>

subsection \<open>Data\<close>

datatype exn = OSError | TypeError | AttributeError | UnicodeDecodeError | Other string

text \<open>
  The state of a path:
  \<^item> \<open>Missing\<close>: no file; reading raises \<^verbatim>\<open>OSError\<close> (\<^verbatim>\<open>FileNotFoundError\<close>), writing
    creates the file;
  \<^item> \<open>Unreadable\<close>: a file that may be written but not read (\<^verbatim>\<open>PermissionError\<close>, an
    \<^verbatim>\<open>OSError\<close>);
  \<^item> \<open>Undecodable\<close>: a file whose bytes are not text in the encoding of \<^verbatim>\<open>open\<close>;
    \<^verbatim>\<open>fd.read()\<close> raises \<^verbatim>\<open>UnicodeDecodeError\<close>, which is not an \<^verbatim>\<open>OSError\<close>;
  \<^item> \<open>Directory\<close>: a directory; reading and writing raise \<^verbatim>\<open>OSError\<close>
    (\<^verbatim>\<open>IsADirectoryError\<close>);
  \<^item> \<open>ReadOnly s\<close>: a file holding the text \<open>s\<close> that may not be written
    (\<^verbatim>\<open>PermissionError\<close>);
  \<^item> \<open>Text s\<close>: a file holding the text \<open>s\<close>.
\<close>

datatype file_state = Missing | Unreadable | Undecodable | Directory | ReadOnly string | Text string

type_synonym store = "string \<Rightarrow> file_state"

text \<open>
  An entry as the feed decoder returns it (a \<^verbatim>\<open>FeedParserDict\<close>):
  \<^item> \<open>updated\<close> is the raw date string \<^verbatim>\<open>e.updated\<close>, or \<open>None\<close> when the entry has no
    such key (the attribute access then raises \<^verbatim>\<open>AttributeError\<close>);
  \<^item> \<open>updated_parsed\<close> is the instant \<^verbatim>\<open>datetime.datetime(*e.updated_parsed[:7])\<close>, or
    \<open>None\<close> when the decoder could not parse the date (\<^verbatim>\<open>e.updated_parsed\<close> is then
    \<^verbatim>\<open>None\<close> and slicing it raises \<^verbatim>\<open>TypeError\<close>);
  \<^item> \<open>filename\<close> is the key \<^verbatim>\<open>e['filename']\<close>, absent until \<^verbatim>\<open>parse\<close> sets it.
\<close>

record entry =
  updated :: "string option"
  updated_parsed :: "int option"
  title :: string
  link :: string
  filename :: "string option"

text \<open>The dictionary of one configured feed (lines 140--168).\<close>

record feed =
  name :: string
  feeds :: "string list"
  filenames :: "string list"
  fmt :: string
  channels :: "string list"
  delay :: real
  time :: real
  headers :: "(string \<times> string) list"

text \<open>The tuple \<^verbatim>\<open>(e.updated, (args, e))\<close> that \<^verbatim>\<open>parse\<close> appends.\<close>

type_synonym candidate = "string \<times> (feed \<times> entry)"

subsection \<open>Reading the watermark (lines 87--91)\<close>

text \<open>
  \<^verbatim>\<open>open(path)\<close> followed by \<^verbatim>\<open>fd.read()\<close>.
\<close>

definition open_read :: "store \<Rightarrow> string \<Rightarrow> exn + string" where
  "open_read st path =
     (case st path of
        Missing \<Rightarrow> Inl OSError
      | Unreadable \<Rightarrow> Inl OSError
      | Undecodable \<Rightarrow> Inl UnicodeDecodeError
      | Directory \<Rightarrow> Inl OSError
      | ReadOnly s \<Rightarrow> Inr s
      | Text s \<Rightarrow> Inr s)"

text \<open>
  \<^verbatim>\<open>open(path, 'w')\<close> (or \<^verbatim>\<open>'wb'\<close>) followed by \<^verbatim>\<open>fd.write(s)\<close>: the file holds \<open>s\<close>
  afterwards, unless the path may not be written.
\<close>

definition writable :: "file_state \<Rightarrow> bool" where
  "writable f = (case f of Directory \<Rightarrow> False | ReadOnly s \<Rightarrow> False | _ \<Rightarrow> True)"

definition write_file :: "store \<Rightarrow> string \<Rightarrow> string \<Rightarrow> exn + store" where
  "write_file st path s =
     (if writable (st path) then Inr (st(path := Text s)) else Inl OSError)"

text \<open>
  \<^verbatim>\<open>str.strip()\<close>: the characters Python counts as white space are removed at both
  ends. Among the first 256 code points these are 9 to 13, 28 to 32, 133 (U+0085) and
  160 (U+00A0).
\<close>

definition isspace :: "char \<Rightarrow> bool" where
  "isspace c = ((of_char c :: nat) \<in> {9, 10, 11, 12, 13, 28, 29, 30, 31, 32, 133, 160})"

definition strip :: "string \<Rightarrow> string" where
  "strip s = rev (dropWhile isspace (rev (dropWhile isspace s)))"

text \<open>
  The \<^verbatim>\<open>try\<close> block of lines 87--91. The handler catches \<^verbatim>\<open>OSError\<close> only; any other
  exception of the read leaves \<^verbatim>\<open>parse\<close>.
\<close>

definition read_updated :: "store \<Rightarrow> string \<Rightarrow> exn + string" where
  "read_updated st fname =
     (case open_read st (fname @ ''.updated'') of
        Inr s \<Rightarrow> Inr (strip s)
      | Inl OSError \<Rightarrow> Inr ''0''
      | Inl ex \<Rightarrow> Inl ex)"

subsection \<open>The loop over the entries of one file (lines 94--102)\<close>

definition two_days :: int where
  "two_days = 2 * 86400 * 1000000"

text \<open>
  The loop stops at the first entry whose attribute access raises. \<^verbatim>\<open>e.updated\<close> is
  read first; \<^verbatim>\<open>e.updated_parsed\<close> is read only for an entry that passed the first test.
\<close>

fun scan_entries ::
  "feed \<Rightarrow> string \<Rightarrow> string \<Rightarrow> int \<Rightarrow> entry list \<Rightarrow> candidate list \<Rightarrow> exn + candidate list" where
  "scan_entries args fname upd max_date [] entries = Inr entries"
| "scan_entries args fname upd max_date (e # es) entries =
     (case updated e of
        None \<Rightarrow> Inl AttributeError
      | Some u \<Rightarrow>
          if u \<le> upd then scan_entries args fname upd max_date es entries
          else
            (case updated_parsed e of
               None \<Rightarrow> Inl TypeError
             | Some d \<Rightarrow>
                 if d < max_date then scan_entries args fname upd max_date es entries
                 else scan_entries args fname upd max_date es
                        (entries @ [(u, (args, e\<lparr>filename := Some fname\<rparr>))])))"

subsection \<open>\<^verbatim>\<open>sorted\<close> on candidates (lines 104 and 197)\<close>

text \<open>
  Python compares the tuples \<^verbatim>\<open>(updated, (args, e))\<close> componentwise: the first components
  that differ decide. When the two date strings are equal and the payloads differ, the
  payloads are compared with \<^verbatim>\<open><\<close>, which reaches a pair of unequal dictionaries
  (\<^verbatim>\<open>args\<close> or \<^verbatim>\<open>e\<close>); dictionaries have no order in Python 3 and the comparison raises
  \<^verbatim>\<open>TypeError\<close>. Equal tuples are not less than each other.
\<close>

definition py_lt :: "candidate \<Rightarrow> candidate \<Rightarrow> exn + bool" where
  "py_lt x y =
     (if fst x \<noteq> fst y then Inr (fst x < fst y)
      else if snd x \<noteq> snd y then Inl TypeError
      else Inr False)"

text \<open>
  \<^verbatim>\<open>sorted\<close> is stable and uses \<^verbatim>\<open><\<close> only: an element moves in front of an earlier
  one only when it is less. It is written as an insertion sort, which is what
  \<^verbatim>\<open>list.sort\<close> runs on short lists.
\<close>

fun insort_py :: "candidate \<Rightarrow> candidate list \<Rightarrow> exn + candidate list" where
  "insort_py x [] = Inr [x]"
| "insort_py x (y # ys) =
     (case py_lt y x of
        Inl ex \<Rightarrow> Inl ex
      | Inr False \<Rightarrow> Inr (x # y # ys)
      | Inr True \<Rightarrow>
          (case insort_py x ys of
             Inl ex \<Rightarrow> Inl ex
           | Inr zs \<Rightarrow> Inr (y # zs)))"

fun sorted_py :: "candidate list \<Rightarrow> exn + candidate list" where
  "sorted_py [] = Inr []"
| "sorted_py (x # xs) =
     (case sorted_py xs of
        Inl ex \<Rightarrow> Inl ex
      | Inr ys \<Rightarrow> insort_py x ys)"

subsection \<open>\<^verbatim>\<open>parse\<close> (lines 80--107)\<close>

text \<open>
  The decoder \<^verbatim>\<open>feedparser.parse(filename)\<close> is a parameter: from the state of the file
  it returns the entries or raises. \<open>parse_file\<close> is the body of the loop over the files
  (lines 87--106), from the list \<^verbatim>\<open>entries\<close> and the store before it to the list and
  the store after it, or to the exception that leaves the loop. The loop keeps one list
  \<^verbatim>\<open>entries\<close> for all the files of the feed; \<^verbatim>\<open>if entries:\<close> tests that list.
\<close>

type_synonym decoder = "file_state \<Rightarrow> exn + entry list"

definition parse_file ::
  "decoder \<Rightarrow> feed \<Rightarrow> int \<Rightarrow> string \<Rightarrow> candidate list \<Rightarrow> store
     \<Rightarrow> (exn + candidate list) \<times> store" where
  "parse_file fp args max_date fname entries st =
     (case read_updated st fname of
        Inl ex \<Rightarrow> (Inl ex, st)
      | Inr upd \<Rightarrow>
          (case fp (st fname) of
             Inl ex \<Rightarrow> (Inl ex, st)
           | Inr feed_entries \<Rightarrow>
               (case scan_entries args fname upd max_date feed_entries entries of
                  Inl ex \<Rightarrow> (Inl ex, st)
                | Inr entries' \<Rightarrow>
                    if entries' \<noteq> [] then
                      (case sorted_py entries' of
                         Inl ex \<Rightarrow> (Inl ex, st)
                       | Inr sorted_entries \<Rightarrow>
                           (case write_file st (fname @ ''.updated'')
                                   (fst (last sorted_entries)) of
                              Inl ex \<Rightarrow> (Inl ex, st)
                            | Inr st' \<Rightarrow> (Inr sorted_entries, st')))
                    else (Inr entries', st))))"

fun parse_files ::
  "decoder \<Rightarrow> feed \<Rightarrow> int \<Rightarrow> string list \<Rightarrow> candidate list \<Rightarrow> store
     \<Rightarrow> (exn + candidate list) \<times> store" where
  "parse_files fp args max_date [] entries st = (Inr entries, st)"
| "parse_files fp args max_date (fname # rest) entries st =
     (case parse_file fp args max_date fname entries st of
        (Inl ex, st') \<Rightarrow> (Inl ex, st')
      | (Inr entries', st') \<Rightarrow> parse_files fp args max_date rest entries' st')"

text \<open>\<open>now\<close> is the value of \<^verbatim>\<open>datetime.datetime.now()\<close> in this call.\<close>

definition parse :: "decoder \<Rightarrow> int \<Rightarrow> feed \<Rightarrow> store \<Rightarrow> (exn + candidate list) \<times> store" where
  "parse fp now args st = parse_files fp args (now - two_days) (filenames args) [] st"

subsection \<open>File names (\<^verbatim>\<open>Feeds.__init__\<close>, lines 148--168)\<close>

text \<open>\<^verbatim>\<open>name.replace('/', '_')\<close>.\<close>

definition replace_slash :: "string \<Rightarrow> string" where
  "replace_slash s = map (\<lambda>c. if c = CHR ''/'' then CHR ''_'' else c) s"

text \<open>\<^verbatim>\<open>os.path.join(a, b)\<close> of \<^verbatim>\<open>posixpath\<close>.\<close>

definition path_join :: "string \<Rightarrow> string \<Rightarrow> string" where
  "path_join a b =
     (if b \<noteq> [] \<and> hd b = CHR ''/'' then b
      else if a = [] \<or> last a = CHR ''/'' then a @ b
      else a @ ''/'' @ b)"

text \<open>The decimal digits of a natural number, as \<^verbatim>\<open>'{1}'.format\<close> prints an index.\<close>

fun str_nat :: "nat \<Rightarrow> string" where
  "str_nat n =
     (if n < 10 then [char_of (48 + n)]
      else str_nat (n div 10) @ [char_of (48 + n mod 10)])"

declare str_nat.simps [simp del]

text \<open>
  The inner loop of lines 153--157: one file name per URL of the feed,
  \<^verbatim>\<open>'{0}.{1}.feed'.format(filename, i)\<close>.
\<close>

definition feed_filenames :: "string \<Rightarrow> string \<Rightarrow> string list \<Rightarrow> string list" where
  "feed_filenames directory nm urls =
     map (\<lambda>(i, url). path_join directory (replace_slash nm) @ ''.'' @ str_nat i @ ''.feed'')
       (enumerate 0 urls)"

text \<open>
  The dictionary built at lines 158--167. The merged options \<^verbatim>\<open>fmt\<close>, \<^verbatim>\<open>channels\<close>
  (already passed through \<^verbatim>\<open>as_channel\<close>), \<^verbatim>\<open>delay\<close> (in minutes) and \<^verbatim>\<open>headers\<close> are
  parameters: \<^verbatim>\<open>irc3.utils\<close> is not part of the file.
\<close>

definition init_feed ::
  "string \<Rightarrow> string \<Rightarrow> string list \<Rightarrow> real \<Rightarrow> (string \<times> string) list
     \<Rightarrow> string \<Rightarrow> string list \<Rightarrow> feed" where
  "init_feed directory fm chans delay_minutes hdrs nm urls =
     \<lparr>name = nm, feeds = urls, filenames = feed_filenames directory nm urls,
      fmt = fm, channels = chans, delay = delay_minutes * 60, time = 0, headers = hdrs\<rparr>"

subsection \<open>\<^verbatim>\<open>Feeds.parse\<close> (lines 190--206)\<close>

text \<open>
  The first loop calls \<^verbatim>\<open>parse\<close> for every feed, in the order of the dictionary, and
  extends one list. \<open>dt_now k\<close> is what \<^verbatim>\<open>datetime.datetime.now()\<close> returns in the
  \<open>k\<close>-th call of \<^verbatim>\<open>parse\<close>.
\<close>

fun parse_feeds ::
  "decoder \<Rightarrow> (nat \<Rightarrow> int) \<Rightarrow> nat \<Rightarrow> feed list \<Rightarrow> candidate list \<Rightarrow> store
     \<Rightarrow> (exn + candidate list) \<times> store" where
  "parse_feeds fp dt_now k [] entries st = (Inr entries, st)"
| "parse_feeds fp dt_now k (f # fs) entries st =
     (case parse fp (dt_now k) f st of
        (Inl ex, st') \<Rightarrow> (Inl ex, st')
      | (Inr es, st') \<Rightarrow> parse_feeds fp dt_now (Suc k) fs (entries @ es) st')"

text \<open>
  The hook takes \<^verbatim>\<open>(i, feed, entry)\<close> and returns a pair or nothing. The format
  language of \<^verbatim>\<open>str.format\<close> is a parameter \<open>render\<close>.
\<close>

type_synonym hook = "nat \<Rightarrow> feed \<Rightarrow> entry \<Rightarrow> (feed \<times> entry) option"

type_synonym renderer = "string \<Rightarrow> feed \<Rightarrow> entry \<Rightarrow> string"

definition default_hook :: hook where
  "default_hook i f e = Some (f, e)"

text \<open>The generator \<^verbatim>\<open>messages()\<close>, run over \<^verbatim>\<open>enumerate(sorted(entries))\<close>.\<close>

fun messages :: "hook \<Rightarrow> renderer \<Rightarrow> (nat \<times> candidate) list \<Rightarrow> (string \<times> string) list" where
  "messages hk render [] = []"
| "messages hk render ((i, (upd, (f, e))) # rest) =
     (case hk i f e of
        None \<Rightarrow> messages hk render rest
      | Some (f', e') \<Rightarrow>
          map (\<lambda>c. (c, render (fmt f') f' e')) (channels f') @ messages hk render rest)"

text \<open>
  The result is the sequence handed to \<^verbatim>\<open>call_many('privmsg', ...)\<close>, or the exception
  that leaves \<^verbatim>\<open>Feeds.parse\<close>; the store is returned as the calls of \<^verbatim>\<open>parse\<close> left it.
\<close>

definition Feeds_parse ::
  "decoder \<Rightarrow> (nat \<Rightarrow> int) \<Rightarrow> hook \<Rightarrow> renderer \<Rightarrow> feed list \<Rightarrow> store
     \<Rightarrow> (exn + (string \<times> string) list) \<times> store" where
  "Feeds_parse fp dt_now hk render fs st =
     (case parse_feeds fp dt_now 0 fs [] st of
        (Inl ex, st') \<Rightarrow> (Inl ex, st')
      | (Inr entries, st') \<Rightarrow>
          (case sorted_py entries of
             Inl ex \<Rightarrow> (Inl ex, st')
           | Inr sorted_entries \<Rightarrow>
               (Inr (messages hk render (enumerate 0 sorted_entries)), st')))"

subsection \<open>\<^verbatim>\<open>fetch\<close> (lines 66--77)\<close>

text \<open>
  \<^verbatim>\<open>requests.get(url, headers=...)\<close> is a parameter that returns the content or raises.
  The handler re-raises what the request or the write of the file raised, so the first
  failing URL ends the loop and the call.
\<close>

type_synonym http = "string \<Rightarrow> (string \<times> string) list \<Rightarrow> exn + string"

fun fetch_urls ::
  "http \<Rightarrow> (string \<times> string) list \<Rightarrow> (string \<times> string) list \<Rightarrow> store \<Rightarrow> exn option \<times> store" where
  "fetch_urls get hdrs [] st = (None, st)"
| "fetch_urls get hdrs ((url, fname) # rest) st =
     (case get url hdrs of
        Inl ex \<Rightarrow> (Some ex, st)
      | Inr content \<Rightarrow>
          (case write_file st fname content of
             Inl ex \<Rightarrow> (Some ex, st)
           | Inr st' \<Rightarrow> fetch_urls get hdrs rest st'))"

definition fetch :: "http \<Rightarrow> feed \<Rightarrow> store \<Rightarrow> (exn + string) \<times> store" where
  "fetch get args st =
     (case fetch_urls get (headers args) (zip (feeds args) (filenames args)) st of
        (Some ex, st') \<Rightarrow> (Inl ex, st')
      | (None, st') \<Rightarrow> (Inr (name args), st'))"

subsection \<open>\<^verbatim>\<open>Feeds.fetch\<close> (lines 208--221)\<close>

text \<open>The test of the list comprehension at lines 211--212.\<close>

definition due :: "real \<Rightarrow> feed \<Rightarrow> bool" where
  "due now f = (time f < now - delay f)"

text \<open>
  \<^verbatim>\<open>executor.map(fetch, feeds)\<close> submits one call per feed of the batch before any result
  is read, and the workers take the calls in the order of the batch. The results are read
  in that order; reading the result of a call that raised cancels the calls that have not
  started yet, and the calls that have started run to their end. How many calls after
  the failing one had started depends on \<^verbatim>\<open>max_workers\<close> and on timing: it is the
  parameter \<open>extra\<close>. The calls are run here one after the other, which is their joint
  outcome when the feeds write different files. \<open>run_started\<close> runs calls whose results
  are never read.
\<close>

fun run_started :: "http \<Rightarrow> feed list \<Rightarrow> store \<Rightarrow> store" where
  "run_started get [] st = st"
| "run_started get (f # fs) st = run_started get fs (snd (fetch get f st))"

fun run_pool :: "http \<Rightarrow> nat \<Rightarrow> feed list \<Rightarrow> store \<Rightarrow> (exn + string) list \<times> store" where
  "run_pool get extra [] st = ([], st)"
| "run_pool get extra (f # fs) st =
     (case fetch get f st of
        (Inl ex, st') \<Rightarrow> ([Inl ex], run_started get (take extra fs) st')
      | (Inr nm, st') \<Rightarrow>
          (case run_pool get extra fs st' of (rs, st'') \<Rightarrow> (Inr nm # rs, st'')))"

text \<open>\<^verbatim>\<open>self.feeds[name]['time'] = t\<close>: the dictionary is keyed by the feed's name.\<close>

definition set_time :: "string \<Rightarrow> real \<Rightarrow> feed list \<Rightarrow> feed list" where
  "set_time nm t fs = map (\<lambda>f. if name f = nm then f\<lparr>time := t\<rparr> else f) fs"

text \<open>
  The \<^verbatim>\<open>for name in executor.map(...)\<close> loop reads the results in the order of the batch;
  reading the result of a call that raised raises in the loop, which ends it.
  \<open>clock k\<close> is what the \<open>k\<close>-th call of \<^verbatim>\<open>time.time()\<close> returns.
\<close>

fun collect_results ::
  "(nat \<Rightarrow> real) \<Rightarrow> nat \<Rightarrow> (exn + string) list \<Rightarrow> feed list \<Rightarrow> exn option \<times> feed list" where
  "collect_results clock k [] fs = (None, fs)"
| "collect_results clock k (Inl ex # rs) fs = (Some ex, fs)"
| "collect_results clock k (Inr nm # rs) fs =
     collect_results clock (Suc k) rs (set_time nm (clock k) fs)"

definition Feeds_fetch ::
  "http \<Rightarrow> nat \<Rightarrow> (nat \<Rightarrow> real) \<Rightarrow> bool \<Rightarrow> feed list \<Rightarrow> store
     \<Rightarrow> exn option \<times> feed list \<times> store" where
  "Feeds_fetch get extra clock testing fs st =
     (let now = clock 0;
          batch = filter (due now) fs
      in if \<not> testing then
           (if batch = [] then (None, fs, st)
            else (case run_pool get extra batch st of
                    (rs, st') \<Rightarrow>
                      (case collect_results clock 1 rs fs of
                         (r, fs') \<Rightarrow> (r, fs', st'))))
         else (None, fs, st))"

subsection \<open>\<^verbatim>\<open>Feeds.update\<close> (lines 223--234)\<close>

text \<open>
  The collaborators of one cycle, and the state of the plugin and of the bot around it:
  \<open>log\<close> is what \<^verbatim>\<open>bot.log.exception\<close> received, \<open>privmsgs\<close> what \<^verbatim>\<open>call_many\<close> received,
  \<open>call_later\<close> the delays passed to \<^verbatim>\<open>bot.loop.call_later(..., self.update)\<close>, and
  \<open>has_loop\<close> whether \<^verbatim>\<open>self.bot.loop\<close> is true. \<open>pool_extra\<close> is the number of
  fetch calls that had started behind a failing one in this cycle.
\<close>

record env =
  http_get :: http
  pool_extra :: nat
  feedparser :: decoder
  the_hook :: hook
  render_fmt :: renderer
  clock :: "nat \<Rightarrow> real"
  dt_now :: "nat \<Rightarrow> int"

record bot =
  bot_feeds :: "feed list"
  files :: store
  log :: "exn list"
  privmsgs :: "(string \<times> string) list"
  call_later :: "real list"
  has_loop :: bool
  testing :: bool
  cycle_delay :: real

definition fetch_phase :: "env \<Rightarrow> bot \<Rightarrow> bot" where
  "fetch_phase ev b =
     (case Feeds_fetch (http_get ev) (pool_extra ev) (clock ev) (testing b) (bot_feeds b)
             (files b) of
        (r, fs', st') \<Rightarrow>
          (let b' = b\<lparr>bot_feeds := fs', files := st'\<rparr>
           in case r of None \<Rightarrow> b' | Some ex \<Rightarrow> b'\<lparr>log := log b' @ [ex]\<rparr>))"

definition parse_phase :: "env \<Rightarrow> bot \<Rightarrow> bot" where
  "parse_phase ev b =
     (case Feeds_parse (feedparser ev) (dt_now ev) (the_hook ev) (render_fmt ev)
             (bot_feeds b) (files b) of
        (r, st') \<Rightarrow>
          (let b' = b\<lparr>files := st'\<rparr>
           in case r of
                Inl ex \<Rightarrow> b'\<lparr>log := log b' @ [ex]\<rparr>
              | Inr ms \<Rightarrow> b'\<lparr>privmsgs := privmsgs b' @ ms\<rparr>))"

definition reschedule :: "bot \<Rightarrow> bot" where
  "reschedule b =
     (if has_loop b then b\<lparr>call_later := call_later b @ [cycle_delay b]\<rparr> else b)"

definition update :: "env \<Rightarrow> bot \<Rightarrow> bot" where
  "update ev b = reschedule (parse_phase ev (fetch_phase ev b))"

subsection \<open>The acceptance test as the specification words it\<close>

text \<open>
  An entry is new when its date string is strictly greater than the watermark, and it is
  kept when it is not older than two days before \<open>now\<close>.
\<close>

definition spec_accepts :: "string \<Rightarrow> int \<Rightarrow> entry \<Rightarrow> bool" where
  "spec_accepts watermark now e =
     (case (updated e, updated_parsed e) of
        (Some u, Some d) \<Rightarrow> watermark < u \<and> \<not> d < now - two_days
      | _ \<Rightarrow> False)"

subsection \<open>Candidates that \<^verbatim>\<open>sorted\<close> cannot order\<close>

text \<open>
  Two candidates of a list clash when they carry the same date string and differ
  otherwise.
\<close>

definition clash :: "candidate list \<Rightarrow> bool" where
  "clash xs = (\<exists>x\<in>set xs. \<exists>y\<in>set xs. fst x = fst y \<and> snd x \<noteq> snd y)"

subsection \<open>Concrete inputs\<close>

text \<open>
  The instant \<open>ex_now\<close>, an entry dated one second before it, and a decoder that never
  raises and knows four file contents: \<^verbatim>\<open>A\<close>, \<^verbatim>\<open>B\<close> and \<^verbatim>\<open>C\<close> hold one dated entry
  each, \<^verbatim>\<open>U\<close> holds one entry without a date; any other file decodes to no entry.
\<close>

definition ex_now :: int where
  "ex_now = 200000000000"

definition ex_entry :: "string \<Rightarrow> string \<Rightarrow> entry" where
  "ex_entry upd ttl =
     \<lparr>updated = Some upd, updated_parsed = Some (ex_now - 1000000), title = ttl,
      link = ''http://l'', filename = None\<rparr>"

definition ex_undated :: entry where
  "ex_undated =
     \<lparr>updated = None, updated_parsed = None, title = ''t0'', link = ''http://l'',
      filename = None\<rparr>"

definition ex_decoder :: decoder where
  "ex_decoder f =
     (if f = Text ''A'' then Inr [ex_entry ''2024-01-03'' ''t1'']
      else if f = Text ''B'' then Inr [ex_entry ''2024-01-05'' ''t2'']
      else if f = Text ''C'' then Inr [ex_entry ''2024-01-03'' ''t3'']
      else if f = Text ''U'' then Inr [ex_undated]
      else Inr [])"

definition ex_feed :: "string \<Rightarrow> string list \<Rightarrow> feed" where
  "ex_feed nm urls = init_feed ''d'' ''{entry.title}'' [''#c''] 5 [] nm urls"

definition ex_render :: renderer where
  "ex_render fm f e = title e"

text \<open>
  A feed \<^verbatim>\<open>x\<close> with two URLs. The first file holds a new entry dated \<^verbatim>\<open>2024-01-03\<close>; the
  second holds an entry dated \<^verbatim>\<open>2024-01-05\<close> that was announced before, as its
  watermark says.
\<close>

definition ex_store_two :: store where
  "ex_store_two =
     (\<lambda>p. Missing)(''d/x.0.feed'' := Text ''A'', ''d/x.1.feed'' := Text ''B'',
       ''d/x.1.feed.updated'' := Text ''2024-01-05'')"

text \<open>
  Two feeds \<^verbatim>\<open>a\<close> and \<^verbatim>\<open>b\<close> with one URL each, whose files hold one new entry each,
  both dated \<^verbatim>\<open>2024-01-03\<close>, with different titles.
\<close>

definition ex_store_tie :: store where
  "ex_store_tie = (\<lambda>p. Missing)(''d/a.0.feed'' := Text ''A'', ''d/b.0.feed'' := Text ''C'')"


text \<open>The feed \<^verbatim>\<open>a\<close> with a watermark file whose bytes are not text.\<close>

definition ex_store_undecodable :: store where
  "ex_store_undecodable =
     (\<lambda>p. Missing)(''d/a.0.feed'' := Text ''A'', ''d/a.0.feed.updated'' := Undecodable)"

text \<open>An HTTP client for which \<^verbatim>\<open>http://x\<close> fails, and a clock.\<close>

definition ex_get :: http where
  "ex_get url hdrs = (if url = ''http://x'' then Inl (Other ''ConnectionError'') else Inr ''B'')"

definition ex_clock :: "nat \<Rightarrow> real" where
  "ex_clock k = 1000 + real k"

definition ex_env :: env where
  "ex_env =
     \<lparr>http_get = ex_get, pool_extra = 0, feedparser = ex_decoder, the_hook = default_hook,
      render_fmt = ex_render, clock = ex_clock, dt_now = (\<lambda>k. ex_now)\<rparr>"

text \<open>
  A bot with the feeds \<^verbatim>\<open>b\<close> and \<^verbatim>\<open>a\<close>, in this order, and no file yet: the URL of
  \<^verbatim>\<open>b\<close> is fetched, then the URL of \<^verbatim>\<open>a\<close> fails.
\<close>

definition ex_bot :: "bool \<Rightarrow> bot" where
  "ex_bot lp =
     \<lparr>bot_feeds = [ex_feed ''b'' [''http://y''], ex_feed ''a'' [''http://x'']],
      files = (\<lambda>p. Missing), log = [], privmsgs = [], call_later = [],
      has_loop = lp, testing = False, cycle_delay = 300\<rparr>"

section \<open>Properties\<close>

subsection \<open>Auxiliary facts\<close>

lemma read_updated_cases:
  "read_updated st fname =
     (case st (fname @ ''.updated'') of
        Text s \<Rightarrow> Inr (strip s)
      | ReadOnly s \<Rightarrow> Inr (strip s)
      | Undecodable \<Rightarrow> Inl UnicodeDecodeError
      | _ \<Rightarrow> Inr ''0'')"
  by (simp add: read_updated_def open_read_def split: file_state.splits)

text \<open>
  On entries that all carry a date string and a parsed date, the loop over the entries of
  a file appends exactly those that pass the test of the specification, in their order.
\<close>

lemma scan_entries_dated:
  "\<forall>e\<in>set raw. updated e \<noteq> None \<and> updated_parsed e \<noteq> None \<Longrightarrow>
   scan_entries args fname w (now - two_days) raw entries =
     Inr (entries @ map (\<lambda>e. (the (updated e), (args, e\<lparr>filename := Some fname\<rparr>)))
            (filter (spec_accepts w now) raw))"
proof (induction raw arbitrary: entries)
  case Nil
  then show ?case by simp
next
  case (Cons e raw)
  from Cons.prems obtain u d where ud: "updated e = Some u" "updated_parsed e = Some d"
    by auto
  from Cons.prems have r: "\<forall>e\<in>set raw. updated e \<noteq> None \<and> updated_parsed e \<noteq> None"
    by simp
  note ih = Cons.IH [OF r]
  show ?case
  proof (cases "u \<le> w")
    case True
    then have "\<not> w < u"
      by (simp add: not_less)
    with True ud ih show ?thesis
      by (simp add: spec_accepts_def)
  next
    case False
    then have lt: "w < u"
      by (simp add: not_le)
    show ?thesis
    proof (cases "d < now - two_days")
      case True
      with False lt ud ih show ?thesis
        by (simp add: spec_accepts_def)
    next
      case nd: False
      with False lt ud ih [of "entries @ [(u, (args, e\<lparr>filename := Some fname\<rparr>))]"]
      show ?thesis
        by (simp add: spec_accepts_def)
    qed
  qed
qed

text \<open>
  What \<^verbatim>\<open>sorted\<close> returns does not depend on the sorting algorithm: it raises
  \<^verbatim>\<open>TypeError\<close> exactly when two candidates clash, and otherwise returns the list
  sorted by date string, which is then the stable sort.
\<close>

lemma clash_Cons:
  "clash (x # xs) \<longleftrightarrow> clash xs \<or> (\<exists>y\<in>set xs. fst y = fst x \<and> snd y \<noteq> snd x)"
proof
  assume "clash (x # xs)"
  then obtain a b where ab: "a \<in> set (x # xs)" "b \<in> set (x # xs)" "fst a = fst b" "snd a \<noteq> snd b"
    unfolding clash_def by blast
  show "clash xs \<or> (\<exists>y\<in>set xs. fst y = fst x \<and> snd y \<noteq> snd x)"
  proof (cases "a = x")
    case True
    with ab have "b \<in> set xs" "fst b = fst x" "snd b \<noteq> snd x"
      by auto
    then show ?thesis by blast
  next
    case False
    with ab(1) have a: "a \<in> set xs" by simp
    show ?thesis
    proof (cases "b = x")
      case True
      with a ab(3,4) show ?thesis by blast
    next
      case False
      with ab(2) have "b \<in> set xs" by simp
      with a ab(3,4) have "clash xs"
        unfolding clash_def by blast
      then show ?thesis ..
    qed
  qed
next
  assume r: "clash xs \<or> (\<exists>y\<in>set xs. fst y = fst x \<and> snd y \<noteq> snd x)"
  show "clash (x # xs)"
  proof (cases "clash xs")
    case True
    then obtain a b where "a \<in> set xs" "b \<in> set xs" "fst a = fst b" "snd a \<noteq> snd b"
      unfolding clash_def by blast
    then have "a \<in> set (x # xs)" "b \<in> set (x # xs)" "fst a = fst b" "snd a \<noteq> snd b"
      by simp_all
    then show ?thesis
      unfolding clash_def by blast
  next
    case False
    with r obtain y where "y \<in> set xs" "fst y = fst x" "snd y \<noteq> snd x"
      by blast
    then have "y \<in> set (x # xs)" "x \<in> set (x # xs)" "fst y = fst x" "snd y \<noteq> snd x"
      by simp_all
    then show ?thesis
      unfolding clash_def by blast
  qed
qed

lemma clash_set: "set xs = set ys \<Longrightarrow> clash xs = clash ys"
  by (simp add: clash_def)


lemma insort_py_Inr:
  "insort_py x ys = Inr zs \<Longrightarrow> zs = insort_key fst x ys"
proof (induction ys arbitrary: zs)
  case Nil
  then show ?case by simp
next
  case (Cons y ys)
  show ?case
  proof (cases "fst y = fst x")
    case True
    with Cons.prems show ?thesis
      by (simp add: py_lt_def split: if_splits)
  next
    case False
    show ?thesis
    proof (cases "fst y < fst x")
      case True
      then have nle: "\<not> fst x \<le> fst y"
        by (simp add: not_le)
      from Cons.prems False True obtain zs' where
        z: "insort_py x ys = Inr zs'" "zs = y # zs'"
        by (auto simp: py_lt_def split: sum.splits)
      from Cons.IH [OF z(1)] z(2) nle show ?thesis
        by simp
    next
      case nl: False
      then have "fst x \<le> fst y"
        by (simp add: not_less)
      with Cons.prems False nl show ?thesis
        by (simp add: py_lt_def)
    qed
  qed
qed

lemma sorted_py_Inr:
  "sorted_py xs = Inr ys \<Longrightarrow> ys = sort_key fst xs"
proof (induction xs arbitrary: ys)
  case Nil
  then show ?case by simp
next
  case (Cons x xs)
  then obtain ys' where y: "sorted_py xs = Inr ys'" "insort_py x ys' = Inr ys"
    by (auto split: sum.splits)
  from Cons.IH [OF y(1)] insort_py_Inr [OF y(2)] show ?case
    by simp
qed


lemma insort_py_no_tie:
  "\<forall>y\<in>set ys. fst y = fst x \<longrightarrow> y = x \<Longrightarrow> insort_py x ys = Inr (insort_key fst x ys)"
proof (induction ys)
  case Nil
  then show ?case by simp
next
  case (Cons y ys)
  then have ih: "insort_py x ys = Inr (insort_key fst x ys)"
    by simp
  show ?case
  proof (cases "fst y = fst x")
    case True
    with Cons.prems have "y = x"
      by simp
    then show ?thesis
      by (simp add: py_lt_def)
  next
    case False
    show ?thesis
    proof (cases "fst y < fst x")
      case True
      then have "\<not> fst x \<le> fst y"
        by (simp add: not_le)
      with True False ih show ?thesis
        by (simp add: py_lt_def)
    next
      case nl: False
      then have "fst x \<le> fst y"
        by (simp add: not_less)
      with nl False show ?thesis
        by (simp add: py_lt_def)
    qed
  qed
qed

lemma sorted_py_no_clash:
  "\<not> clash xs \<Longrightarrow> sorted_py xs = Inr (sort_key fst xs)"
proof (induction xs)
  case Nil
  then show ?case by simp
next
  case (Cons x xs)
  from Cons.prems have nc: "\<not> clash xs"
    and nt: "\<forall>y\<in>set xs. fst y = fst x \<longrightarrow> snd y = snd x"
    by (simp_all add: clash_Cons)
  have "\<forall>y\<in>set (sort_key fst xs). fst y = fst x \<longrightarrow> y = x"
  proof (intro ballI impI)
    fix y
    assume "y \<in> set (sort_key fst xs)" and f: "fst y = fst x"
    then have "y \<in> set xs"
      by simp
    with nt f have "snd y = snd x"
      by blast
    with f show "y = x"
      by (rule prod_eqI)
  qed
  then have "insort_py x (sort_key fst xs) = Inr (insort_key fst x (sort_key fst xs))"
    by (rule insort_py_no_tie)
  with Cons.IH [OF nc] show ?case
    by simp
qed

lemma insort_py_tie:
  assumes "sorted (map fst ys)" and "\<not> clash ys"
    and "\<exists>y\<in>set ys. fst y = fst x \<and> snd y \<noteq> snd x"
  shows "insort_py x ys = Inl TypeError"
  using assms
proof (induction ys)
  case Nil
  then show ?case by simp
next
  case (Cons y ys)
  from Cons.prems(2) have nc: "\<not> clash ys"
    and nt: "\<forall>z\<in>set ys. fst z = fst y \<longrightarrow> snd z = snd y"
    by (simp_all add: clash_Cons)
  from Cons.prems(1) have so: "sorted (map fst ys)" and le: "\<forall>u\<in>set ys. fst y \<le> fst u"
    by simp_all
  from Cons.prems(3) obtain z where
    z0: "z \<in> set (y # ys)" and z23: "fst z = fst x" "snd z \<noteq> snd x"
    by blast
  from z0 have z1: "z = y \<or> z \<in> set ys"
    by simp
  note z = z1 z23
  show ?case
  proof (cases "fst y = fst x")
    case True
    have "snd y \<noteq> snd x"
    proof (cases "z = y")
      case True
      with z(3) show ?thesis by simp
    next
      case False
      with z(1) have "z \<in> set ys" by simp
      moreover from z(2) True have "fst z = fst y" by simp
      ultimately have "snd z = snd y" using nt by blast
      with z(3) show ?thesis by simp
    qed
    with True show ?thesis
      by (simp add: py_lt_def)
  next
    case False
    with z(1,2) have zin: "z \<in> set ys"
      by auto
    with le have "fst y \<le> fst z"
      by blast
    with z(2) False have lt: "fst y < fst x"
      by (simp add: less_le)
    from zin z(2,3) have ex: "\<exists>y\<in>set ys. fst y = fst x \<and> snd y \<noteq> snd x"
      by blast
    from False lt Cons.IH [OF so nc ex] show ?thesis
      by (simp add: py_lt_def)
  qed
qed

lemma sorted_py_clash:
  "clash xs \<Longrightarrow> sorted_py xs = Inl TypeError"
proof (induction xs)
  case Nil
  then show ?case by (simp add: clash_def)
next
  case (Cons x xs)
  show ?case
  proof (cases "clash xs")
    case True
    with Cons.IH show ?thesis by simp
  next
    case False
    with Cons.prems have "\<exists>y\<in>set xs. fst y = fst x \<and> snd y \<noteq> snd x"
      by (simp add: clash_Cons)
    then have ex: "\<exists>y\<in>set (sort_key fst xs). fst y = fst x \<and> snd y \<noteq> snd x"
      by simp
    have "clash (sort_key fst xs) = clash xs"
      by (rule clash_set) simp
    with False have nc: "\<not> clash (sort_key fst xs)"
      by simp
    have so: "sorted (map fst (sort_key fst xs))"
      by simp
    have "insort_py x (sort_key fst xs) = Inl TypeError"
      by (rule insort_py_tie [OF so nc ex])
    with sorted_py_no_clash [OF False] show ?thesis
      by simp
  qed
qed

lemma sorted_py_eq:
  "sorted_py xs = (if clash xs then Inl TypeError else Inr (sort_key fst xs))"
  by (simp add: sorted_py_clash sorted_py_no_clash)

subsection \<open>Entries at or below the watermark\<close>

text \<open>
  Claim C2, at an input where the code departs from it. Within one call of \<^verbatim>\<open>parse\<close> the
  test is the one the claim states (\<open>scan_entries_dated\<close>). Across cycles it is not: the
  feed \<^verbatim>\<open>x\<close> has two files, the entry of the second file is dated \<^verbatim>\<open>2024-01-05\<close> and the
  watermark of that file is \<^verbatim>\<open>2024-01-05\<close>. The first cycle emits the entry of the first
  file only. Since the list \<^verbatim>\<open>entries\<close> is shared by the files of the feed, the cycle
  rewrites the watermark of the second file to \<^verbatim>\<open>2024-01-03\<close>, and the next cycle, on
  the same feed files, emits the entry that was at the watermark.
\<close>

theorem entry_at_watermark_emitted_in_next_cycle:
  "read_updated ex_store_two ''d/x.1.feed'' = Inr ''2024-01-05'' \<and>
   ex_decoder (ex_store_two ''d/x.1.feed'') = Inr [ex_entry ''2024-01-05'' ''t2''] \<and>
   updated (ex_entry ''2024-01-05'' ''t2'') = Some ''2024-01-05'' \<and>
   fst (Feeds_parse ex_decoder (\<lambda>k. ex_now) default_hook ex_render
          [ex_feed ''x'' [''http://u0'', ''http://u1'']] ex_store_two) =
     Inr [(''#c'', ''t1'')] \<and>
   fst (Feeds_parse ex_decoder (\<lambda>k. ex_now) default_hook ex_render
          [ex_feed ''x'' [''http://u0'', ''http://u1'']]
          (snd (Feeds_parse ex_decoder (\<lambda>k. ex_now) default_hook ex_render
                  [ex_feed ''x'' [''http://u0'', ''http://u1'']] ex_store_two))) =
     Inr [(''#c'', ''t2'')]"
  by code_simp

subsection \<open>Reading the watermark\<close>

text \<open>
  Claim C9, amended. When the watermark file of a location is missing, may not be read or
  is a directory (\<^verbatim>\<open>open\<close> or \<^verbatim>\<open>read\<close> raise \<^verbatim>\<open>OSError\<close>), the read returns the string
  \<^verbatim>\<open>0\<close> and the body of the loop runs with it: the decoded entries whose date string is
  above \<^verbatim>\<open>0\<close> and which are not older than the horizon are appended, and the watermark
  is written from the list (a write that raises leaves \<^verbatim>\<open>parse\<close>). When the file holds
  text, the read returns the stripped text. When the bytes of the file are not text, the
  read raises \<^verbatim>\<open>UnicodeDecodeError\<close>, which the handler does not catch, and \<^verbatim>\<open>parse\<close>
  ends with it.
\<close>

theorem watermark_read_sentinel_on_OSError:
  "(st (fname @ ''.updated'') \<in> {Missing, Unreadable, Directory} \<longrightarrow>
      read_updated st fname = Inr ''0'' \<and>
      parse_file fp args md fname entries st =
        (case fp (st fname) of
           Inl ex \<Rightarrow> (Inl ex, st)
         | Inr raw \<Rightarrow>
             (case scan_entries args fname ''0'' md raw entries of
                Inl ex \<Rightarrow> (Inl ex, st)
              | Inr es \<Rightarrow>
                  if es \<noteq> [] then
                    (case sorted_py es of
                       Inl ex \<Rightarrow> (Inl ex, st)
                     | Inr s \<Rightarrow>
                         (case write_file st (fname @ ''.updated'') (fst (last s)) of
                            Inl ex \<Rightarrow> (Inl ex, st)
                          | Inr st' \<Rightarrow> (Inr s, st')))
                  else (Inr es, st)))) \<and>
   ((\<forall>e\<in>set raw. updated e \<noteq> None \<and> updated_parsed e \<noteq> None) \<longrightarrow>
      scan_entries args fname ''0'' (now - two_days) raw entries =
        Inr (entries @ map (\<lambda>e. (the (updated e), (args, e\<lparr>filename := Some fname\<rparr>)))
               (filter (spec_accepts ''0'' now) raw))) \<and>
   (st (fname @ ''.updated'') = Text s \<or> st (fname @ ''.updated'') = ReadOnly s \<longrightarrow>
      read_updated st fname = Inr (strip s)) \<and>
   (st (fname @ ''.updated'') = Undecodable \<longrightarrow>
      read_updated st fname = Inl UnicodeDecodeError \<and>
      parse_files fp args md (fname # rest) entries st = (Inl UnicodeDecodeError, st))"
proof (intro conjI impI)
  assume m: "st (fname @ ''.updated'') \<in> {Missing, Unreadable, Directory}"
  then show z: "read_updated st fname = Inr ''0''"
    by (auto simp: read_updated_cases)
  show "parse_file fp args md fname entries st =
        (case fp (st fname) of
           Inl ex \<Rightarrow> (Inl ex, st)
         | Inr raw \<Rightarrow>
             (case scan_entries args fname ''0'' md raw entries of
                Inl ex \<Rightarrow> (Inl ex, st)
              | Inr es \<Rightarrow>
                  if es \<noteq> [] then
                    (case sorted_py es of
                       Inl ex \<Rightarrow> (Inl ex, st)
                     | Inr s \<Rightarrow>
                         (case write_file st (fname @ ''.updated'') (fst (last s)) of
                            Inl ex \<Rightarrow> (Inl ex, st)
                          | Inr st' \<Rightarrow> (Inr s, st')))
                  else (Inr es, st)))"
    by (simp add: parse_file_def z)
next
  assume "\<forall>e\<in>set raw. updated e \<noteq> None \<and> updated_parsed e \<noteq> None"
  then show "scan_entries args fname ''0'' (now - two_days) raw entries =
        Inr (entries @ map (\<lambda>e. (the (updated e), (args, e\<lparr>filename := Some fname\<rparr>)))
               (filter (spec_accepts ''0'' now) raw))"
    by (rule scan_entries_dated)
next
  assume "st (fname @ ''.updated'') = Text s \<or> st (fname @ ''.updated'') = ReadOnly s"
  then show "read_updated st fname = Inr (strip s)"
    by (auto simp: read_updated_cases)
next
  assume u: "st (fname @ ''.updated'') = Undecodable"
  then show r: "read_updated st fname = Inl UnicodeDecodeError"
    by (simp add: read_updated_cases)
  show "parse_files fp args md (fname # rest) entries st = (Inl UnicodeDecodeError, st)"
    by (simp add: parse_file_def r)
qed

theorem watermark_read_sentinel_on_OSError_witness:
  "read_updated ex_store_tie ''d/a.0.feed'' = Inr ''0'' \<and>
   parse_file ex_decoder (ex_feed ''a'' [''http://x'']) (ex_now - two_days) ''d/a.0.feed'' []
       ex_store_tie =
     (Inr [(''2024-01-03'', (ex_feed ''a'' [''http://x''],
             (ex_entry ''2024-01-03'' ''t1'')\<lparr>filename := Some ''d/a.0.feed''\<rparr>))],
      ex_store_tie(''d/a.0.feed.updated'' := Text ''2024-01-03'')) \<and>
   read_updated ex_store_undecodable ''d/a.0.feed'' = Inl UnicodeDecodeError \<and>
   parse_files ex_decoder (ex_feed ''a'' [''http://x'']) (ex_now - two_days) [''d/a.0.feed''] []
       ex_store_undecodable = (Inl UnicodeDecodeError, ex_store_undecodable)"
proof -
  have m: "ex_store_tie (''d/a.0.feed'' @ ''.updated'') \<in> {Missing, Unreadable, Directory}"
    by (simp add: ex_store_tie_def)
  note inst = watermark_read_sentinel_on_OSError [of ex_store_tie "''d/a.0.feed''" ex_decoder
        "ex_feed ''a'' [''http://x'']" "ex_now - two_days" "[]", THEN conjunct1, THEN mp, OF m]
  have val: "(case ex_decoder (ex_store_tie ''d/a.0.feed'') of
           Inl ex \<Rightarrow> (Inl ex, ex_store_tie)
         | Inr raw \<Rightarrow>
             (case scan_entries (ex_feed ''a'' [''http://x'']) ''d/a.0.feed'' ''0''
                     (ex_now - two_days) raw [] of
                Inl ex \<Rightarrow> (Inl ex, ex_store_tie)
              | Inr es \<Rightarrow>
                  if es \<noteq> [] then
                    (case sorted_py es of
                       Inl ex \<Rightarrow> (Inl ex, ex_store_tie)
                     | Inr s \<Rightarrow>
                         (case write_file ex_store_tie (''d/a.0.feed'' @ ''.updated'')
                                 (fst (last s)) of
                            Inl ex \<Rightarrow> (Inl ex, ex_store_tie)
                          | Inr st' \<Rightarrow> (Inr s, st')))
                  else (Inr es, ex_store_tie)))
        = (Inr [(''2024-01-03'', (ex_feed ''a'' [''http://x''],
             (ex_entry ''2024-01-03'' ''t1'')\<lparr>filename := Some ''d/a.0.feed''\<rparr>))],
      ex_store_tie(''d/a.0.feed.updated'' := Text ''2024-01-03''))"
    by (simp add: ex_store_tie_def ex_decoder_def ex_entry_def ex_now_def two_days_def
        write_file_def writable_def)
  have u: "ex_store_undecodable (''d/a.0.feed'' @ ''.updated'') = Undecodable"
    by (simp add: ex_store_undecodable_def)
  note inst2 = watermark_read_sentinel_on_OSError
      [where st = ex_store_undecodable and fname = "''d/a.0.feed''" and fp = ex_decoder
         and args = "ex_feed ''a'' [''http://x'']" and md = "ex_now - two_days"
         and entries = "[]" and rest = "[]",
       THEN conjunct2, THEN conjunct2, THEN conjunct2, THEN mp, OF u]
  show ?thesis
    by (rule conjI [OF inst [THEN conjunct1]
          conjI [OF trans [OF inst [THEN conjunct2] val]
            conjI [OF inst2 [THEN conjunct1] inst2 [THEN conjunct2]]]])
qed

text \<open>
  A watermark file whose bytes are not text: the read fails, and so does \<^verbatim>\<open>parse\<close>.
\<close>

theorem undecodable_watermark_counterexample:
  "ex_store_undecodable ''d/a.0.feed.updated'' = Undecodable \<and>
   read_updated ex_store_undecodable ''d/a.0.feed'' = Inl UnicodeDecodeError \<and>
   fst (parse ex_decoder ex_now (ex_feed ''a'' [''http://x'']) ex_store_undecodable) =
     Inl UnicodeDecodeError"
  by code_simp

subsection \<open>File names of feeds whose names differ in \<^verbatim>\<open>/\<close> and \<^verbatim>\<open>_\<close>\<close>

lemma replace_slash_cong:
  assumes "list_all2 (\<lambda>c d. c = d \<or> (c \<in> {CHR ''/'', CHR ''_''} \<and> d \<in> {CHR ''/'', CHR ''_''})) n1 n2"
  shows "replace_slash n1 = replace_slash n2"
  using assms unfolding replace_slash_def
  by (induction rule: list_all2_induct) auto

lemma feed_filenames_nth:
  "i < length urls \<Longrightarrow>
   feed_filenames directory nm urls ! i =
     path_join directory (replace_slash nm) @ ''.'' @ str_nat i @ ''.feed''"
  by (simp add: feed_filenames_def nth_enumerate_eq)

text \<open>
  Claim C10. The \<open>i\<close>-th file of a feed is the directory joined with the feed's name in
  which every \<^verbatim>\<open>/\<close> is replaced by \<^verbatim>\<open>_\<close>, followed by \<^verbatim>\<open>.i.feed\<close>. Two names that
  differ only in positions where one has \<^verbatim>\<open>/\<close> and the other \<^verbatim>\<open>_\<close> therefore get the
  same feed file and the same watermark file for every index both have, and read the
  same watermark: content and watermark are shared between the two feeds.
\<close>

theorem slash_and_underscore_names_share_files:
  assumes "list_all2 (\<lambda>c d. c = d \<or> (c \<in> {CHR ''/'', CHR ''_''} \<and> d \<in> {CHR ''/'', CHR ''_''})) n1 n2"
    and "i < length urls1" and "i < length urls2"
  shows "filenames (init_feed directory fm1 ch1 dl1 h1 n1 urls1) ! i =
           path_join directory (replace_slash n1) @ ''.'' @ str_nat i @ ''.feed'' \<and>
         filenames (init_feed directory fm1 ch1 dl1 h1 n1 urls1) ! i =
           filenames (init_feed directory fm2 ch2 dl2 h2 n2 urls2) ! i \<and>
         filenames (init_feed directory fm1 ch1 dl1 h1 n1 urls1) ! i @ ''.updated'' =
           filenames (init_feed directory fm2 ch2 dl2 h2 n2 urls2) ! i @ ''.updated'' \<and>
         read_updated st (filenames (init_feed directory fm1 ch1 dl1 h1 n1 urls1) ! i) =
           read_updated st (filenames (init_feed directory fm2 ch2 dl2 h2 n2 urls2) ! i)"
  using replace_slash_cong [OF assms(1)] assms(2,3)
  by (simp add: init_feed_def feed_filenames_nth)

theorem slash_and_underscore_names_share_files_witness:
  "''a/b'' \<noteq> ''a_b'' \<and>
   filenames (ex_feed ''a/b'' [''http://x'']) ! 0 = ''d/a_b.0.feed'' \<and>
   filenames (ex_feed ''a_b'' [''http://y'', ''http://z'']) ! 0 = ''d/a_b.0.feed'' \<and>
   filenames (ex_feed ''a/b'' [''http://x'']) ! 0 @ ''.updated'' =
     filenames (ex_feed ''a_b'' [''http://y'', ''http://z'']) ! 0 @ ''.updated''"
proof -
  have a: "list_all2 (\<lambda>c d. c = d \<or> (c \<in> {CHR ''/'', CHR ''_''} \<and> d \<in> {CHR ''/'', CHR ''_''}))
             ''a/b'' ''a_b''"
    by simp
  have l1: "0 < length [''http://x'']" and l2: "0 < length [''http://y'', ''http://z'']"
    by simp_all
  note inst = slash_and_underscore_names_share_files [OF a l1 l2,
      of "''d''" "''{entry.title}''" "[''#c'']" 5 "[]" "''{entry.title}''" "[''#c'']" 5 "[]"
         "\<lambda>p. Missing", folded ex_feed_def]
  have v: "path_join ''d'' (replace_slash ''a/b'') @ ''.'' @ str_nat 0 @ ''.feed'' = ''d/a_b.0.feed''"
    by code_simp
  from inst [unfolded v] show ?thesis
    by auto
qed

subsection \<open>The batch of feeds to fetch\<close>

text \<open>
  Claim C6, amended. A feed whose last fetch time is \<open>T\<close> and whose delay is \<open>D\<close> is in
  the batch of a cycle whose time is \<open>now\<close> exactly when \<open>T + D < now\<close>: it is left out
  at every time up to and including \<open>T + D\<close>, and taken at every time strictly after it.
\<close>

theorem batch_iff_strictly_after:
  "f \<in> set (filter (due now) fs) \<longleftrightarrow> f \<in> set fs \<and> time f + delay f < now"
  by (auto simp: due_def)

theorem batch_iff_strictly_after_witness:
  "ex_feed ''a'' [] \<in> set (filter (due 301) [ex_feed ''a'' []])"
  using batch_iff_strictly_after [of "ex_feed ''a'' []" 301 "[ex_feed ''a'' []]"]
  by (simp add: ex_feed_def init_feed_def)

text \<open>
  At the time \<open>T + D\<close> itself the feed is not in the batch: with \<open>T = 0\<close> and
  \<open>D = 300\<close>, the batch of a cycle at time \<open>300\<close> is empty.
\<close>

theorem batch_at_boundary_counterexample:
  "time (ex_feed ''a'' []) = 0 \<and> delay (ex_feed ''a'' []) = 300 \<and>
   \<not> due 300 (ex_feed ''a'' []) \<and> filter (due 300) [ex_feed ''a'' []] = []"
  by (simp add: ex_feed_def init_feed_def due_def)

subsection \<open>A hook that drops every candidate\<close>






subsection \<open>The update cycle\<close>

text \<open>
  Claim C8, amended. Whatever the fetch phase returns, an exception \<open>r1\<close> included, the
  parse phase runs on the feeds and files the fetch phase left; an exception of either
  phase goes to the log and nowhere else; the messages of a parse phase that did not raise
  are sent; and the next cycle is scheduled after the global delay when the bot has an
  event loop, and not scheduled when it has none.
\<close>

theorem update_catches_and_reschedules:
  assumes "Feeds_fetch (http_get ev) (pool_extra ev) (clock ev) (testing b) (bot_feeds b) (files b) =
             (r1, fs', st')"
    and "Feeds_parse (feedparser ev) (dt_now ev) (the_hook ev) (render_fmt ev) fs' st' = (r2, st'')"
  shows "update ev b =
           b\<lparr>bot_feeds := fs', files := st'',
             log := log b @ (case r1 of None \<Rightarrow> [] | Some ex \<Rightarrow> [ex])
                          @ (case r2 of Inl ex \<Rightarrow> [ex] | Inr ms \<Rightarrow> []),
             privmsgs := privmsgs b @ (case r2 of Inl ex \<Rightarrow> [] | Inr ms \<Rightarrow> ms),
             call_later := call_later b @ (if has_loop b then [cycle_delay b] else [])\<rparr>"
proof -
  have f: "fetch_phase ev b =
             b\<lparr>bot_feeds := fs', files := st',
               log := log b @ (case r1 of None \<Rightarrow> [] | Some ex \<Rightarrow> [ex])\<rparr>"
    using assms(1) by (simp add: fetch_phase_def Let_def split: option.splits)
  show ?thesis
    using assms(2)
    by (simp add: update_def f parse_phase_def reschedule_def Let_def split: sum.splits)
qed

theorem update_catches_and_reschedules_witness:
  "has_loop (ex_bot True) \<and>
   log (update ex_env (ex_bot True)) = [Other ''ConnectionError''] \<and>
   privmsgs (update ex_env (ex_bot True)) = [(''#c'', ''t2'')] \<and>
   call_later (update ex_env (ex_bot True)) = [300]"
proof -
  have l: "has_loop (ex_bot True)"
    by (simp add: ex_bot_def)
  obtain r1 fs' st' where
    f: "Feeds_fetch (http_get ex_env) (pool_extra ex_env) (clock ex_env) (testing (ex_bot True))
          (bot_feeds (ex_bot True)) (files (ex_bot True)) = (r1, fs', st')"
    by (metis prod_cases3)
  obtain r2 st'' where
    p: "Feeds_parse (feedparser ex_env) (dt_now ex_env) (the_hook ex_env) (render_fmt ex_env)
          fs' st' = (r2, st'')"
    by (metis surj_pair)
  note inst = update_catches_and_reschedules [OF f p]
  have c: "call_later (update ex_env (ex_bot True)) = [300]"
    by (subst inst) (simp add: ex_bot_def)
  have g: "log (update ex_env (ex_bot True)) = [Other ''ConnectionError'']"
    by code_simp
  have m: "privmsgs (update ex_env (ex_bot True)) = [(''#c'', ''t2'')]"
    by code_simp
  from l c g m show ?thesis
    by simp
qed

text \<open>
  Without an event loop (\<^verbatim>\<open>self.bot.loop\<close> false, line 233) nothing is scheduled.
\<close>

theorem update_without_loop_counterexample:
  "\<not> has_loop (ex_bot False) \<and>
   call_later (update ex_env (ex_bot False)) = call_later (ex_bot False) \<and>
   call_later (update ex_env (ex_bot False)) = []"
  by code_simp

subsection \<open>The watermark of the second file of a feed\<close>

text \<open>
  Claim C1, at an input where the code departs from it. The feed \<^verbatim>\<open>x\<close> has two files.
  The watermark of the second is \<^verbatim>\<open>2024-01-05\<close> and no entry of the second file is
  accepted; the first file yields a new entry dated \<^verbatim>\<open>2024-01-03\<close>. Because the list
  \<^verbatim>\<open>entries\<close> is shared by the files of the feed, \<^verbatim>\<open>parse\<close> writes \<^verbatim>\<open>2024-01-03\<close> as
  the watermark of the second file: it is rewritten although nothing was accepted there,
  and it decreases. The next call of \<^verbatim>\<open>parse\<close> accepts the entry dated \<^verbatim>\<open>2024-01-05\<close>
  of the second file again.
\<close>

theorem second_location_watermark_regresses:
  "ex_store_two ''d/x.1.feed.updated'' = Text ''2024-01-05'' \<and>
   scan_entries (ex_feed ''x'' [''http://u0'', ''http://u1'']) ''d/x.1.feed'' ''2024-01-05''
     (ex_now - two_days) [ex_entry ''2024-01-05'' ''t2''] [] = Inr [] \<and>
   snd (parse ex_decoder ex_now (ex_feed ''x'' [''http://u0'', ''http://u1'']) ex_store_two)
     ''d/x.1.feed.updated'' = Text ''2024-01-03'' \<and>
   ''2024-01-03'' < ''2024-01-05'' \<and>
   map (\<lambda>c. (fst c, title (snd (snd c))))
     (case fst (parse ex_decoder ex_now (ex_feed ''x'' [''http://u0'', ''http://u1''])
                 (snd (parse ex_decoder ex_now (ex_feed ''x'' [''http://u0'', ''http://u1''])
                         ex_store_two))) of
        Inl ex \<Rightarrow> [] | Inr es \<Rightarrow> es) = [(''2024-01-05'', ''t2'')]"
  by code_simp

subsection \<open>Candidates with equal date strings\<close>

text \<open>
  Claim C4, at an input where the code departs from it. The feeds \<^verbatim>\<open>a\<close> and \<^verbatim>\<open>b\<close> each
  yield one new entry, both dated \<^verbatim>\<open>2024-01-03\<close>. Each call of \<^verbatim>\<open>parse\<close> returns its
  candidate and writes its watermark; \<^verbatim>\<open>sorted(entries)\<close> in \<^verbatim>\<open>Feeds.parse\<close> then compares
  the two payloads and raises \<^verbatim>\<open>TypeError\<close>, so that no candidate reaches the hook and
  no message is emitted.
\<close>

theorem equal_dates_raise_TypeError:
  "fst (parse ex_decoder ex_now (ex_feed ''a'' [''http://x'']) ex_store_tie) =
     Inr [(''2024-01-03'', (ex_feed ''a'' [''http://x''],
            (ex_entry ''2024-01-03'' ''t1'')\<lparr>filename := Some ''d/a.0.feed''\<rparr>))] \<and>
   fst (parse ex_decoder ex_now (ex_feed ''b'' [''http://y'']) ex_store_tie) =
     Inr [(''2024-01-03'', (ex_feed ''b'' [''http://y''],
            (ex_entry ''2024-01-03'' ''t3'')\<lparr>filename := Some ''d/b.0.feed''\<rparr>))] \<and>
   fst (Feeds_parse ex_decoder (\<lambda>k. ex_now) default_hook ex_render
          [ex_feed ''a'' [''http://x''], ex_feed ''b'' [''http://y'']] ex_store_tie) =
     Inl TypeError \<and>
   snd (Feeds_parse ex_decoder (\<lambda>k. ex_now) default_hook ex_render
          [ex_feed ''a'' [''http://x''], ex_feed ''b'' [''http://y'']] ex_store_tie)
     ''d/a.0.feed.updated'' = Text ''2024-01-03'' \<and>
   snd (Feeds_parse ex_decoder (\<lambda>k. ex_now) default_hook ex_render
          [ex_feed ''a'' [''http://x''], ex_feed ''b'' [''http://y'']] ex_store_tie)
     ''d/b.0.feed.updated'' = Text ''2024-01-03''"
  by code_simp

subsection \<open>A location whose decoding fails\<close>










subsection \<open>A failing URL in the fetch phase\<close>

text \<open>
  The first URL that raises ends \<^verbatim>\<open>fetch\<close> for its feed; in \<^verbatim>\<open>Feeds.fetch\<close> the results
  before the failing one set the time of their feed, and reading the failing result ends
  the loop. A write to a path changes no path's being writable.
\<close>

lemma writable_fetch_urls:
  "writable (snd (fetch_urls get hdrs ps st) q) = writable (st q)"
proof (induction ps arbitrary: st)
  case Nil
  show ?case by simp
next
  case (Cons a ps)
  obtain u p where a: "a = (u, p)"
    by (cases a)
  show ?case
  proof (cases "get u hdrs")
    case (Inl ex)
    with a show ?thesis by simp
  next
    case (Inr c)
    show ?thesis
    proof (cases "writable (st p)")
      case False
      with a Inr show ?thesis
        by (simp add: write_file_def)
    next
      case True
      have "writable (snd (fetch_urls get hdrs ps (st(p := Text c))) q) =
              writable ((st(p := Text c)) q)"
        by (rule Cons.IH)
      with a Inr True show ?thesis
        by (simp add: write_file_def writable_def)
    qed
  qed
qed

lemma writable_fetch: "writable (snd (fetch get f st) q) = writable (st q)"
  using writable_fetch_urls [of get "headers f" "zip (feeds f) (filenames f)" st q]
  by (cases "fetch_urls get (headers f) (zip (feeds f) (filenames f)) st")
     (auto simp: fetch_def split: option.splits)

lemma fetch_urls_ok:
  "\<forall>(u, p)\<in>set ps. (\<exists>c. get u hdrs = Inr c) \<and> writable (st p) \<Longrightarrow>
   fst (fetch_urls get hdrs ps st) = None"
proof (induction ps arbitrary: st)
  case Nil
  then show ?case by simp
next
  case (Cons a ps)
  obtain u p where a: "a = (u, p)"
    by (cases a)
  with Cons.prems obtain c where c: "get u hdrs = Inr c" and w: "writable (st p)"
    by auto
  from Cons.prems have "\<forall>(u, q)\<in>set ps. (\<exists>c. get u hdrs = Inr c) \<and> writable (st q)"
    by simp
  then have r: "\<forall>(u, q)\<in>set ps. (\<exists>c. get u hdrs = Inr c) \<and> writable ((st(p := Text c)) q)"
    by (auto simp: writable_def)
  have "fst (fetch_urls get hdrs ps (st(p := Text c))) = None"
    by (rule Cons.IH [OF r])
  with a c w show ?case
    by (simp add: write_file_def)
qed

lemma fetch_urls_fail:
  "\<forall>(u, p)\<in>set fetched. (\<exists>c. get u hdrs = Inr c) \<and> writable (st p) \<Longrightarrow>
   get url hdrs = Inl ex \<Longrightarrow>
   fetch_urls get hdrs (fetched @ (url, fname) # rest) st =
     (Some ex, snd (fetch_urls get hdrs fetched st))"
proof (induction fetched arbitrary: st)
  case Nil
  then show ?case by simp
next
  case (Cons a ps)
  obtain u p where a: "a = (u, p)"
    by (cases a)
  with Cons.prems(1) obtain c where c: "get u hdrs = Inr c" and w: "writable (st p)"
    by auto
  from Cons.prems(1) have "\<forall>(u, q)\<in>set ps. (\<exists>c. get u hdrs = Inr c) \<and> writable (st q)"
    by simp
  then have r: "\<forall>(u, q)\<in>set ps. (\<exists>c. get u hdrs = Inr c) \<and> writable ((st(p := Text c)) q)"
    by (auto simp: writable_def)
  have "fetch_urls get hdrs (ps @ (url, fname) # rest) (st(p := Text c)) =
          (Some ex, snd (fetch_urls get hdrs ps (st(p := Text c))))"
    by (rule Cons.IH [OF r Cons.prems(2)])
  with a c w show ?case
    by (simp add: write_file_def)
qed

lemma fetch_ok:
  "\<forall>(u, p)\<in>set (zip (feeds f) (filenames f)).
      (\<exists>c. get u (headers f) = Inr c) \<and> writable (st p) \<Longrightarrow>
   fst (fetch get f st) = Inr (name f)"
  using fetch_urls_ok [of "zip (feeds f) (filenames f)" get "headers f" st]
  by (cases "fetch_urls get (headers f) (zip (feeds f) (filenames f)) st") (simp add: fetch_def)

lemma fetch_fail:
  "zip (feeds X) (filenames X) = fetched @ (url, fname) # rest \<Longrightarrow>
   \<forall>(u, p)\<in>set fetched. (\<exists>c. get u (headers X) = Inr c) \<and> writable (st p) \<Longrightarrow>
   get url (headers X) = Inl ex \<Longrightarrow>
   fetch get X st = (Inl ex, snd (fetch_urls get (headers X) fetched st))"
  by (simp add: fetch_def fetch_urls_fail)

lemma run_pool_fail:
  assumes "\<forall>f\<in>set pre. \<forall>(u, p)\<in>set (zip (feeds f) (filenames f)).
             (\<exists>c. get u (headers f) = Inr c) \<and> writable (st p)"
    and "zip (feeds X) (filenames X) = fetched @ (url, fname) # rest"
    and "\<forall>(u, p)\<in>set fetched. (\<exists>c. get u (headers X) = Inr c) \<and> writable (st p)"
    and "get url (headers X) = Inl ex"
  shows "fst (run_pool get extra (pre @ X # post) st) = map (\<lambda>f. Inr (name f)) pre @ [Inl ex]"
  using assms(1,3)
proof (induction pre arbitrary: st)
  case Nil
  have "fetch get X st = (Inl ex, snd (fetch_urls get (headers X) fetched st))"
    by (rule fetch_fail) (rule assms(2), rule Nil.prems(2), rule assms(4))
  then show ?case
    by simp
next
  case (Cons f pre)
  from Cons.prems(1)
  have ok: "\<forall>(u, p)\<in>set (zip (feeds f) (filenames f)).
              (\<exists>c. get u (headers f) = Inr c) \<and> writable (st p)"
    by simp
  have h: "fst (fetch get f st) = Inr (name f)"
    by (rule fetch_ok) (rule ok)
  define st' where "st' = snd (fetch get f st)"
  have w: "\<And>q. writable (st' q) = writable (st q)"
    unfolding st'_def by (rule writable_fetch)
  from Cons.prems(1)
  have r: "\<forall>f\<in>set pre. \<forall>(u, p)\<in>set (zip (feeds f) (filenames f)).
             (\<exists>c. get u (headers f) = Inr c) \<and> writable (st' p)"
    by (simp add: w)
  from Cons.prems(2)
  have x: "\<forall>(u, p)\<in>set fetched. (\<exists>c. get u (headers X) = Inr c) \<and> writable (st' p)"
    by (simp add: w)
  have ih: "fst (run_pool get extra (pre @ X # post) st') =
              map (\<lambda>f. Inr (name f)) pre @ [Inl ex]"
    by (rule Cons.IH [OF r x])
  obtain st2 where f: "fetch get f st = (Inr (name f), st2)"
    using h by (cases "fetch get f st") simp
  then have "st2 = st'"
    by (simp add: st'_def)
  obtain rs2 st3 where rp: "run_pool get extra (pre @ X # post) st' = (rs2, st3)"
    by (cases "run_pool get extra (pre @ X # post) st'")
  with ih have "rs2 = map (\<lambda>f. Inr (name f)) pre @ [Inl ex]"
    by simp
  with f rp \<open>st2 = st'\<close> show ?case
    by simp
qed

lemma collect_results_fail:
  "collect_results clk k (map (\<lambda>f. Inr (name f)) pre @ Inl ex # rs) fs =
     (Some ex, fold (\<lambda>(i, f). set_time (name f) (clk i)) (enumerate k pre) fs)"
  by (induction pre arbitrary: k fs) simp_all

lemma set_time_other: "f \<in> set fs \<Longrightarrow> name f \<noteq> nm \<Longrightarrow> f \<in> set (set_time nm t fs)"
  by (force simp: set_time_def)

lemma set_time_hit: "f \<in> set fs \<Longrightarrow> name f = nm \<Longrightarrow> f\<lparr>time := t\<rparr> \<in> set (set_time nm t fs)"
  by (force simp: set_time_def)

lemma fold_set_time_other:
  "f \<in> set fs \<Longrightarrow> name f \<notin> name ` set pre \<Longrightarrow>
   f \<in> set (fold (\<lambda>(i, f). set_time (name f) (clk i)) (enumerate k pre) fs)"
proof (induction pre arbitrary: k fs)
  case Nil
  then show ?case by simp
next
  case (Cons x xs)
  from Cons.prems(2) have nx: "name f \<noteq> name x" and nr: "name f \<notin> name ` set xs"
    by auto
  from set_time_other [OF Cons.prems(1) nx]
  have "f \<in> set (set_time (name x) (clk k) fs)" .
  from Cons.IH [OF this nr] show ?case
    by simp
qed

lemma fold_set_time_hit:
  "distinct (map name pre) \<Longrightarrow> i < length pre \<Longrightarrow> pre ! i \<in> set fs \<Longrightarrow>
   (pre ! i)\<lparr>time := clk (k + i)\<rparr>
     \<in> set (fold (\<lambda>(i, f). set_time (name f) (clk i)) (enumerate k pre) fs)"
proof (induction pre arbitrary: k fs i)
  case Nil
  then show ?case by simp
next
  case (Cons x xs)
  from Cons.prems(1) have dx: "name x \<notin> name ` set xs" and dr: "distinct (map name xs)"
    by simp_all
  show ?case
  proof (cases i)
    case 0
    with Cons.prems(3) have "x \<in> set fs"
      by simp
    then have "x\<lparr>time := clk k\<rparr> \<in> set (set_time (name x) (clk k) fs)"
      by (rule set_time_hit) simp
    moreover from dx have "name (x\<lparr>time := clk k\<rparr>) \<notin> name ` set xs"
      by simp
    ultimately have "x\<lparr>time := clk k\<rparr>
        \<in> set (fold (\<lambda>(i, f). set_time (name f) (clk i)) (enumerate (Suc k) xs)
                 (set_time (name x) (clk k) fs))"
      by (rule fold_set_time_other)
    with 0 show ?thesis
      by simp
  next
    case (Suc j)
    with Cons.prems(2) have j: "j < length xs"
      by simp
    then have "xs ! j \<in> set xs"
      by simp
    with dx have "name (xs ! j) \<noteq> name x"
      by (metis imageI)
    moreover from Cons.prems(3) Suc have "xs ! j \<in> set fs"
      by simp
    ultimately have "xs ! j \<in> set (set_time (name x) (clk k) fs)"
      by (simp add: set_time_other)
    from Cons.IH [OF dr j this, of "Suc k"] Suc show ?thesis
      by simp
  qed
qed

text \<open>
  Claim C3, amended. Let the batch of a cycle be \<open>pre @ X # post\<close>, let every URL of the
  feeds in \<open>pre\<close> succeed (the request returns and the file may be written), and let
  \<open>url\<close> be the first URL of \<open>X\<close> that raises. Then a call of \<^verbatim>\<open>fetch\<close> for \<open>X\<close>, on
  any store \<open>st0\<close> in which the files before \<open>url\<close> may be written, raises after
  writing those files only (the remaining URLs of \<open>X\<close> are aborted), and \<^verbatim>\<open>Feeds.fetch\<close> raises the same exception, however many of the calls
  behind \<open>X\<close> had started. The feeds before \<open>X\<close> in the batch have their time set to
  the clock reading of their turn; \<open>X\<close> itself, the feeds after \<open>X\<close> in the batch and
  the feeds outside the batch keep the time they had.
\<close>

theorem failed_fetch_leaves_times_unset:
  assumes "\<not> tst"
    and "distinct (map name fs)"
    and "filter (due (clk 0)) fs = pre @ X # post"
    and "\<forall>f\<in>set pre. \<forall>(u, p)\<in>set (zip (feeds f) (filenames f)).
           (\<exists>c. get u (headers f) = Inr c) \<and> writable (st p)"
    and "zip (feeds X) (filenames X) = fetched @ (url, fname) # rest"
    and "\<forall>(u, p)\<in>set fetched. (\<exists>c. get u (headers X) = Inr c) \<and> writable (st p)"
    and "get url (headers X) = Inl ex"
  shows "((\<forall>(u, p)\<in>set fetched. writable (st0 p)) \<longrightarrow>
            fetch get X st0 = (Inl ex, snd (fetch_urls get (headers X) fetched st0))) \<and>
         (\<exists>fs' st'. Feeds_fetch get extra clk tst fs st = (Some ex, fs', st') \<and>
            X \<in> set fs' \<and> set post \<subseteq> set fs' \<and>
            (\<forall>f\<in>set fs. \<not> due (clk 0) f \<longrightarrow> f \<in> set fs') \<and>
            (\<forall>i<length pre. (pre ! i)\<lparr>time := clk (Suc i)\<rparr> \<in> set fs'))"
proof
  show "(\<forall>(u, p)\<in>set fetched. writable (st0 p)) \<longrightarrow>
          fetch get X st0 = (Inl ex, snd (fetch_urls get (headers X) fetched st0))"
  proof
    assume w: "\<forall>(u, p)\<in>set fetched. writable (st0 p)"
    have "\<forall>(u, p)\<in>set fetched. (\<exists>c. get u (headers X) = Inr c) \<and> writable (st0 p)"
    proof
      fix a
      assume a: "a \<in> set fetched"
      obtain u p where up: "a = (u, p)"
        by (cases a)
      from assms(6) a up have "\<exists>c. get u (headers X) = Inr c"
        by auto
      moreover from w a up have "writable (st0 p)"
        by auto
      ultimately show "case a of (u, p) \<Rightarrow> (\<exists>c. get u (headers X) = Inr c) \<and> writable (st0 p)"
        using up by simp
    qed
    note h = this
    show "fetch get X st0 = (Inl ex, snd (fetch_urls get (headers X) fetched st0))"
      by (rule fetch_fail) (rule assms(5), rule h, rule assms(7))
  qed
next
  define batch where "batch = filter (due (clk 0)) fs"
  define G where "G = fold (\<lambda>(i, f). set_time (name f) (clk i)) (enumerate 1 pre) fs"
  have b: "batch = pre @ X # post"
    by (simp add: batch_def assms(3))
  have sub: "set batch \<subseteq> set fs"
    by (auto simp: batch_def)
  have "distinct (map name batch)"
    unfolding batch_def by (rule distinct_map_filter [OF assms(2)])
  with b have d: "distinct (map name (pre @ X # post))"
    by simp
  then have dp: "distinct (map name pre)"
    and nX: "name X \<notin> name ` set pre"
    and np: "\<forall>f\<in>set post. name f \<notin> name ` set pre"
    by auto
  have inj: "inj_on name (set fs)"
    using assms(2) by (simp add: distinct_map)
  obtain rs st' where rp: "run_pool get extra batch st = (rs, st')"
    by (cases "run_pool get extra batch st")
  have "fst (run_pool get extra (pre @ X # post) st) = map (\<lambda>f. Inr (name f)) pre @ [Inl ex]"
    by (rule run_pool_fail) (rule assms(4), rule assms(5), rule assms(6), rule assms(7))
  with rp b have rs: "rs = map (\<lambda>f. Inr (name f)) pre @ Inl ex # []"
    by simp
  have cr: "collect_results clk 1 rs fs = (Some ex, G)"
    by (simp only: rs G_def collect_results_fail)
  have ne: "batch \<noteq> []"
    by (simp add: b)
  have ff: "Feeds_fetch get extra clk tst fs st = (Some ex, G, st')"
    using assms(1) ne rp cr by (simp add: Feeds_fetch_def Let_def batch_def [symmetric])
  have X: "X \<in> set G"
    unfolding G_def
  proof (rule fold_set_time_other [OF _ nX])
    from sub b show "X \<in> set fs" by auto
  qed
  have post: "set post \<subseteq> set G"
  proof
    fix f
    assume f: "f \<in> set post"
    with sub b have "f \<in> set fs" by auto
    moreover from f np have "name f \<notin> name ` set pre" by blast
    ultimately show "f \<in> set G"
      unfolding G_def by (rule fold_set_time_other)
  qed
  have rest: "\<forall>f\<in>set fs. \<not> due (clk 0) f \<longrightarrow> f \<in> set G"
  proof (intro ballI impI)
    fix f
    assume f: "f \<in> set fs" and nd: "\<not> due (clk 0) f"
    have "name f \<notin> name ` set pre"
    proof
      assume "name f \<in> name ` set pre"
      then obtain p where p: "p \<in> set pre" "name p = name f"
        by auto
      with sub b have "p \<in> set fs" by auto
      with inj f p(2) have "p = f"
        by (auto dest: inj_onD)
      with p(1) b have "f \<in> set batch" by simp
      with nd show False
        by (simp add: batch_def)
    qed
    with f show "f \<in> set G"
      unfolding G_def by (rule fold_set_time_other)
  qed
  have pre: "\<forall>i<length pre. (pre ! i)\<lparr>time := clk (Suc i)\<rparr> \<in> set G"
  proof (intro allI impI)
    fix i
    assume i: "i < length pre"
    then have "pre ! i \<in> set pre" by simp
    with sub b have "pre ! i \<in> set fs" by auto
    from fold_set_time_hit [OF dp i this, of clk 1] show "(pre ! i)\<lparr>time := clk (Suc i)\<rparr> \<in> set G"
      by (simp add: G_def)
  qed
  from ff X post rest pre
  show "\<exists>fs' st'. Feeds_fetch get extra clk tst fs st = (Some ex, fs', st') \<and>
            X \<in> set fs' \<and> set post \<subseteq> set fs' \<and>
            (\<forall>f\<in>set fs. \<not> due (clk 0) f \<longrightarrow> f \<in> set fs') \<and>
            (\<forall>i<length pre. (pre ! i)\<lparr>time := clk (Suc i)\<rparr> \<in> set fs')"
    by blast
qed

theorem failed_fetch_leaves_times_unset_witness:
  "\<exists>fs' st'.
     Feeds_fetch ex_get 0 ex_clock False
       [ex_feed ''b'' [''http://y''], ex_feed ''a'' [''http://x'']] (\<lambda>p. Missing) =
       (Some (Other ''ConnectionError''), fs', st') \<and>
     ex_feed ''a'' [''http://x''] \<in> set fs' \<and>
     (ex_feed ''b'' [''http://y''])\<lparr>time := 1001\<rparr> \<in> set fs'"
proof -
  have 1: "\<not> False"
    by simp
  have 2: "distinct (map name [ex_feed ''b'' [''http://y''], ex_feed ''a'' [''http://x'']])"
    by code_simp
  have 3: "filter (due (ex_clock 0)) [ex_feed ''b'' [''http://y''], ex_feed ''a'' [''http://x'']] =
             [ex_feed ''b'' [''http://y'']] @ ex_feed ''a'' [''http://x''] # []"
    by (simp add: due_def ex_clock_def ex_feed_def init_feed_def)
  have z: "zip (feeds (ex_feed ''b'' [''http://y''])) (filenames (ex_feed ''b'' [''http://y''])) =
             [(''http://y'', ''d/b.0.feed'')]"
    by code_simp
  have 4: "\<forall>f\<in>set [ex_feed ''b'' [''http://y'']].
             \<forall>(u, p)\<in>set (zip (feeds f) (filenames f)).
               (\<exists>c. ex_get u (headers f) = Inr c) \<and> writable ((\<lambda>p. Missing) p)"
    by (simp add: z) (simp add: ex_get_def writable_def)
  have 5: "zip (feeds (ex_feed ''a'' [''http://x''])) (filenames (ex_feed ''a'' [''http://x''])) =
             [] @ (''http://x'', ''d/a.0.feed'') # []"
    by code_simp
  have 6: "\<forall>(u, p)\<in>set []. (\<exists>c. ex_get u (headers (ex_feed ''a'' [''http://x''])) = Inr c) \<and>
             writable ((\<lambda>p. Missing) p)"
    by simp
  have 7: "ex_get ''http://x'' (headers (ex_feed ''a'' [''http://x''])) = Inl (Other ''ConnectionError'')"
    by (simp add: ex_get_def)
  note inst = failed_fetch_leaves_times_unset
    [where get = ex_get and clk = ex_clock and st = "\<lambda>p. Missing" and extra = 0
       and X = "ex_feed ''a'' [''http://x'']" and pre = "[ex_feed ''b'' [''http://y'']]",
     OF 1 2 3 4 5 6 7, THEN conjunct2]
  then obtain fs' st' where
    f: "Feeds_fetch ex_get 0 ex_clock False
          [ex_feed ''b'' [''http://y''], ex_feed ''a'' [''http://x'']] (\<lambda>p. Missing) =
          (Some (Other ''ConnectionError''), fs', st')"
    and x: "ex_feed ''a'' [''http://x''] \<in> set fs'"
    and p: "\<forall>i<length [ex_feed ''b'' [''http://y'']].
              ([ex_feed ''b'' [''http://y'']] ! i)\<lparr>time := ex_clock (Suc i)\<rparr> \<in> set fs'"
    by blast
  from p have "(ex_feed ''b'' [''http://y''])\<lparr>time := 1001\<rparr> \<in> set fs'"
    by (simp add: ex_clock_def)
  with f x show ?thesis
    by blast
qed

text \<open>
  Both feeds are due, the URL of \<^verbatim>\<open>a\<close> fails and \<^verbatim>\<open>a\<close> comes first: neither \<^verbatim>\<open>a\<close> nor
  \<^verbatim>\<open>b\<close> gets a new time, whether the call for \<^verbatim>\<open>b\<close> had started or not.
\<close>

theorem failed_fetch_stops_time_updates_counterexample:
  "due (ex_clock 0) (ex_feed ''a'' [''http://x'']) \<and>
   due (ex_clock 0) (ex_feed ''b'' [''http://y'']) \<and>
   map time [ex_feed ''a'' [''http://x''], ex_feed ''b'' [''http://y'']] = [0, 0] \<and>
   fst (Feeds_fetch ex_get 0 ex_clock False
          [ex_feed ''a'' [''http://x''], ex_feed ''b'' [''http://y'']] (\<lambda>p. Missing)) =
     Some (Other ''ConnectionError'') \<and>
   map time (fst (snd (Feeds_fetch ex_get 0 ex_clock False
          [ex_feed ''a'' [''http://x''], ex_feed ''b'' [''http://y'']] (\<lambda>p. Missing)))) = [0, 0] \<and>
   fst (Feeds_fetch ex_get 1 ex_clock False
          [ex_feed ''a'' [''http://x''], ex_feed ''b'' [''http://y'']] (\<lambda>p. Missing)) =
     Some (Other ''ConnectionError'') \<and>
   map time (fst (snd (Feeds_fetch ex_get 1 ex_clock False
          [ex_feed ''a'' [''http://x''], ex_feed ''b'' [''http://y'']] (\<lambda>p. Missing)))) = [0, 0]"
  by code_simp

end
